theory Spec2Isabelle
  imports Main "HOL-Library.Sublist"
begin

section \<open>The orb commands of the CLI (cmd/orb.go)\<close>

text \<open>
  The file cmd/orb.go holds three commands: \<open>orb list\<close> walks a paginated GraphQL
  collection, \<open>orb validate\<close> and \<open>orb expand\<close> send a local file to the server and
  report what it answers. The collaborators that are not part of the file (the GraphQL
  client, \<open>queryAPI\<close>, \<open>ioutil.ReadFile\<close>) are parameters of the model; the logger is
  the list of the lines it was given.
\<close>

subsection \<open>Errors\<close>

text \<open>
  Go's \<open>error\<close> values as the file builds them: \<open>errors.New\<close> makes a fresh error from
  a message, \<open>errors.Wrap\<close> (and \<open>errors.Wrapf\<close>, once its format is filled in) puts a
  context message in front of a cause. \<open>External\<close> is an error that a collaborator
  returned. A Go \<open>error\<close> result that may be \<open>nil\<close> is an \<open>error option\<close>.
\<close>

datatype error =
    External string
  | New string
  | Wrap error string

fun Error :: "error \<Rightarrow> string" where
  "Error (External s) = s"
| "Error (New s) = s"
| "Error (Wrap err msg) = msg @ '': '' @ Error err"

subsection \<open>Response structures\<close>

record orbError =
  Message :: string

record orbConfig =
  Valid :: bool
  SourceYaml :: string
  OutputYaml :: string
  Errors :: "orbError list"

record orbConfigResponse =
  OrbConfig :: orbConfig

record node =
  Name :: string

record edge =
  Cursor :: string
  Node :: node

record pageInfo =
  HasNextPage :: bool

record orbs =
  TotalCount :: int
  Edges :: "edge list"
  PageInfo :: pageInfo

record orbList =
  Orbs :: orbs

subsection \<open>Requests\<close>

text \<open>
  A \<open>graphql.Request\<close>: the query text and the variables set so far.
  \<open>request.Var\<close> sets one variable in place; the model returns the updated request.
\<close>

record request =
  query :: string
  vars :: "string \<rightharpoonup> string"

definition NewRequest :: "string \<Rightarrow> request" where
  "NewRequest q = \<lparr>query = q, vars = Map.empty\<rparr>"

definition Var :: "request \<Rightarrow> string \<Rightarrow> string \<Rightarrow> request" where
  "Var req key val = req\<lparr>vars := (vars req)(key \<mapsto> val)\<rparr>"

definition tab :: string where
  "tab = [CHR 0x09]"

definition ListOrbs_query :: string where
  "ListOrbs_query =
     ''\<newline>'' @
     ''query ListOrbs ($after: String!) {\<newline>'' @
     ''  orbs(first: 20, after: $after) {\<newline>'' @
     tab @ ''totalCount,\<newline>'' @
     ''    edges {\<newline>'' @
     ''      cursor,\<newline>'' @
     ''      node {\<newline>'' @
     ''        name\<newline>'' @
     ''      }\<newline>'' @
     ''    }\<newline>'' @
     ''    pageInfo {\<newline>'' @
     ''      hasNextPage\<newline>'' @
     ''    }\<newline>'' @
     ''  }\<newline>'' @
     ''}\<newline>'' @
     tab"

definition ValidateOrb_query :: string where
  "ValidateOrb_query =
     ''\<newline>'' @
     tab @ tab @ ''query ValidateOrb ($orb: String!) {\<newline>'' @
     tab @ tab @ tab @ ''orbConfig(orbYaml: $orb) {\<newline>'' @
     tab @ tab @ tab @ tab @ ''valid,\<newline>'' @
     tab @ tab @ tab @ tab @ ''errors { message },\<newline>'' @
     tab @ tab @ tab @ tab @ ''sourceYaml,\<newline>'' @
     tab @ tab @ tab @ tab @ ''outputYaml\<newline>'' @
     tab @ tab @ tab @ ''}\<newline>'' @
     tab @ tab @ ''}''"

subsection \<open>listOrbs\<close>

text \<open>
  The GraphQL client is a parameter: \<open>client i req\<close> is what \<open>client.Run\<close> does on the
  \<open>i\<close>-th call of the run (counted from 0) when it is given the request \<open>req\<close>: an
  error, or the value decoded into \<open>result\<close>. The variable \<open>result\<close> is declared
  once, before the loop; each successful call is taken to set all of it, so that the
  page of a round-trip is the page the client returned for it.

  The state of a run: the lines given to \<open>Logger.Infof\<close>, the requests handed to
  \<open>client.Run\<close> (each as it was when sent), the value of \<open>currentCursor\<close>, and whether
  the function has returned (and what) or is still in its loop.
\<close>

type_synonym client = "nat \<Rightarrow> request \<Rightarrow> error + orbList"

datatype outcome = Returned "error option" | Running

record run =
  logged :: "string list"
  sent :: "request list"
  currentCursor :: string
  outcome :: outcome

text \<open>The line \<open>Logger.Infof("Orb: %s\n", name)\<close> writes.\<close>

definition Infof_Orb :: "string \<Rightarrow> string" where
  "Infof_Orb name = ''Orb: '' @ name @ ''\<newline>''"

text \<open>
  The inner loop \<open>for i := range result.Orbs.Edges\<close>: every edge sets
  \<open>currentCursor\<close> and logs its name.
\<close>

fun range_Edges :: "edge list \<Rightarrow> string \<times> string list \<Rightarrow> string \<times> string list" where
  "range_Edges [] (cur, log) = (cur, log)"
| "range_Edges (edge # rest) (cur, log) =
     range_Edges rest (Cursor edge, log @ [Infof_Orb (Name (Node edge))])"

text \<open>
  The outer \<open>for\<close> loop has no bound, so the model takes fuel: the number of round-trips
  it may still make. With no fuel left the run is reported as it stands, \<open>Running\<close>.
\<close>

fun listOrbs_loop ::
  "nat \<Rightarrow> client \<Rightarrow> request \<Rightarrow> nat \<Rightarrow> string \<Rightarrow> string list \<Rightarrow> request list \<Rightarrow> run" where
  "listOrbs_loop 0 client req i cur log reqs =
     \<lparr>logged = log, sent = reqs, currentCursor = cur, outcome = Running\<rparr>"
| "listOrbs_loop (Suc fuel) client req i cur log reqs =
     (let req' = Var req ''after'' cur in
      case client i req' of
        Inl err \<Rightarrow>
          \<lparr>logged = log, sent = reqs @ [req'], currentCursor = cur,
           outcome = Returned (Some (Wrap err ''GraphQL query failed''))\<rparr>
      | Inr result \<Rightarrow>
          (case range_Edges (Edges (Orbs result)) (cur, log) of
             (cur', log') \<Rightarrow>
               if \<not> HasNextPage (PageInfo (Orbs result))
               then \<lparr>logged = log', sent = reqs @ [req'], currentCursor = cur',
                     outcome = Returned None\<rparr>
               else listOrbs_loop fuel client req' (Suc i) cur' log' (reqs @ [req'])))"

definition listOrbs :: "nat \<Rightarrow> client \<Rightarrow> run" where
  "listOrbs fuel client = listOrbs_loop fuel client (NewRequest ListOrbs_query) 0 '''' [] []"

subsection \<open>Validation and expansion\<close>

text \<open>
  \<open>ReadFile\<close> stands for \<open>ioutil.ReadFile\<close> (the bytes of the file as a string, or an
  error) and \<open>queryAPI\<close> for the function of that name, which is given the query and its
  variables and decodes the answer into \<open>response\<close>, or fails. \<open>orbPath\<close> is the
  package variable the \<open>--path\<close> flag sets.
\<close>

type_synonym readFile = "string \<Rightarrow> error + string"
type_synonym queryAPI = "string \<Rightarrow> (string \<rightharpoonup> string) \<Rightarrow> error + orbConfigResponse"

definition loadOrbYaml :: "readFile \<Rightarrow> string \<Rightarrow> error + string" where
  "loadOrbYaml ReadFile path =
     (case ReadFile path of
        Inl err \<Rightarrow> Inl (Wrap err (''Could not load orb file at '' @ path))
      | Inr orb \<Rightarrow> Inr orb)"

fun writeErrors :: "orbError list \<Rightarrow> string \<Rightarrow> string" where
  "writeErrors [] buffer = buffer"
| "writeErrors (e # es) buffer = writeErrors es (buffer @ ''-- '' @ Message e @ '',\<newline>'')"

definition processErrors :: "orbConfigResponse \<Rightarrow> error" where
  "processErrors response = New (writeErrors (Errors (OrbConfig response)) ''\<newline>'')"

definition orbValidateQuery :: "readFile \<Rightarrow> queryAPI \<Rightarrow> string \<Rightarrow> error + orbConfigResponse" where
  "orbValidateQuery ReadFile queryAPI orbPath =
     (case loadOrbYaml ReadFile orbPath of
        Inl err \<Rightarrow> Inl err
      | Inr orb \<Rightarrow>
          (case queryAPI ValidateOrb_query [''orb'' \<mapsto> orb] of
             Inl err \<Rightarrow> Inl (Wrap err ''Unable to validate orb'')
           | Inr response \<Rightarrow> Inr response))"

text \<open>Both commands give back the lines they logged and the error they return.\<close>

definition validateOrb :: "readFile \<Rightarrow> queryAPI \<Rightarrow> string \<Rightarrow> string list \<times> error option" where
  "validateOrb ReadFile queryAPI orbPath =
     (case orbValidateQuery ReadFile queryAPI orbPath of
        Inl err \<Rightarrow> ([], Some err)
      | Inr response \<Rightarrow>
          if \<not> Valid (OrbConfig response) then ([], Some (processErrors response))
          else ([''Orb at '' @ orbPath @ '' is valid''], None))"

definition expandOrb :: "readFile \<Rightarrow> queryAPI \<Rightarrow> string \<Rightarrow> string list \<times> error option" where
  "expandOrb ReadFile queryAPI orbPath =
     (case orbValidateQuery ReadFile queryAPI orbPath of
        Inl err \<Rightarrow> ([], Some err)
      | Inr response \<Rightarrow>
          if \<not> Valid (OrbConfig response) then ([], Some (processErrors response))
          else ([OutputYaml (OrbConfig response)], None))"

subsection \<open>A scripted client\<close>

text \<open>
  A client that plays a fixed list of answers, one per call, and fails once the list is
  used up. The examples below run the commands against it.
\<close>

definition scripted :: "(error + orbList) list \<Rightarrow> client" where
  "scripted answers i req = (if i < length answers then answers ! i else Inl (External ''EOF''))"

definition page :: "(string \<times> string) list \<Rightarrow> bool \<Rightarrow> orbList" where
  "page entries hasNext =
     \<lparr>Orbs = \<lparr>TotalCount = int (length entries),
              Edges = map (\<lambda>(c, n). \<lparr>Cursor = c, Node = \<lparr>Name = n\<rparr>\<rparr>) entries,
              PageInfo = \<lparr>HasNextPage = hasNext\<rparr>\<rparr>\<rparr>"

section \<open>Properties of the pagination loop\<close>

lemma range_Edges_eq:
  "range_Edges es (cur, log) =
     (if es = [] then cur else Cursor (last es), log @ map (\<lambda>e. Infof_Orb (Name (Node e))) es)"
  by (induction es arbitrary: cur log) simp_all

lemma Var_Var: "Var (Var req key a) key b = Var req key b"
  by (simp add: Var_def)

lemma vars_Var: "vars (Var req key v) key = Some v"
  by (simp add: Var_def)

lemma query_Var: "query (Var req key v) = query req"
  by (simp add: Var_def)

text \<open>The loop reads its request only after setting \<open>after\<close> in it.\<close>

lemma loop_req_cong:
  "(\<And>c. Var req ''after'' c = Var req2 ''after'' c) \<Longrightarrow>
   listOrbs_loop fuel client req i cur log reqs = listOrbs_loop fuel client req2 i cur log reqs"
  by (cases fuel) (simp_all add: Let_def)

lemma loop_0:
  "listOrbs_loop 0 client req i cur log reqs =
     \<lparr>logged = log, sent = reqs, currentCursor = cur, outcome = Running\<rparr>"
  by simp

text \<open>One round-trip, with the inner loop summed up.\<close>

lemma loop_Suc:
  "listOrbs_loop (Suc fuel) client req i cur log reqs =
     (case client i (Var req ''after'' cur) of
        Inl err \<Rightarrow>
          \<lparr>logged = log, sent = reqs @ [Var req ''after'' cur], currentCursor = cur,
           outcome = Returned (Some (Wrap err ''GraphQL query failed''))\<rparr>
      | Inr result \<Rightarrow>
          if \<not> HasNextPage (PageInfo (Orbs result))
          then \<lparr>logged = log @ map (\<lambda>e. Infof_Orb (Name (Node e))) (Edges (Orbs result)),
                sent = reqs @ [Var req ''after'' cur],
                currentCursor =
                  (if Edges (Orbs result) = [] then cur else Cursor (last (Edges (Orbs result)))),
                outcome = Returned None\<rparr>
          else listOrbs_loop fuel client req (Suc i)
                 (if Edges (Orbs result) = [] then cur else Cursor (last (Edges (Orbs result))))
                 (log @ map (\<lambda>e. Infof_Orb (Name (Node e))) (Edges (Orbs result)))
                 (reqs @ [Var req ''after'' cur]))"
proof -
  have "listOrbs_loop fuel client (Var req ''after'' cur) i' c l r =
        listOrbs_loop fuel client req i' c l r" for i' c l r
    by (rule loop_req_cong) (simp add: Var_Var)
  then show ?thesis
    by (simp add: Let_def range_Edges_eq split: sum.split)
qed

declare listOrbs_loop.simps [simp del]

text \<open>
  A run of pages that all announce a next page: the loop makes one round-trip for each,
  logs their entries in order and holds the cursor of the last entry seen.
\<close>

lemma loop_pages:
  assumes "\<forall>k<length ps. \<forall>r. client (i + k) r = Inr (ps ! k)"
    and "\<forall>k<length ps. HasNextPage (PageInfo (Orbs (ps ! k)))"
  shows "\<exists>rs. length rs = length ps \<and>
     listOrbs_loop (length ps + fuel) client req i cur log reqs =
     listOrbs_loop fuel client req (i + length ps)
       (if concat (map (\<lambda>p. Edges (Orbs p)) ps) = [] then cur
        else Cursor (last (concat (map (\<lambda>p. Edges (Orbs p)) ps))))
       (log @ map (\<lambda>e. Infof_Orb (Name (Node e))) (concat (map (\<lambda>p. Edges (Orbs p)) ps)))
       (reqs @ rs)"
  using assms
proof (induction ps arbitrary: i cur log reqs)
  case Nil
  then show ?case by simp
next
  case (Cons p ps)
  have p0: "client i r = Inr p" for r using Cons.prems(1) by force
  have hp: "HasNextPage (PageInfo (Orbs p))" using Cons.prems(2) by force
  have a1: "\<forall>k<length ps. \<forall>r. client (Suc i + k) r = Inr (ps ! k)"
    using Cons.prems(1) by force
  have a2: "\<forall>k<length ps. HasNextPage (PageInfo (Orbs (ps ! k)))"
    using Cons.prems(2) by force
  let ?c = "if Edges (Orbs p) = [] then cur else Cursor (last (Edges (Orbs p)))"
  let ?l = "log @ map (\<lambda>e. Infof_Orb (Name (Node e))) (Edges (Orbs p))"
  from Cons.IH [OF a1 a2, of ?c ?l "reqs @ [Var req ''after'' cur]"]
  obtain rs where rs: "length rs = length ps"
    "listOrbs_loop (length ps + fuel) client req (Suc i) ?c ?l (reqs @ [Var req ''after'' cur]) =
     listOrbs_loop fuel client req (Suc i + length ps)
       (if concat (map (\<lambda>p. Edges (Orbs p)) ps) = [] then ?c
        else Cursor (last (concat (map (\<lambda>p. Edges (Orbs p)) ps))))
       (?l @ map (\<lambda>e. Infof_Orb (Name (Node e))) (concat (map (\<lambda>p. Edges (Orbs p)) ps)))
       ((reqs @ [Var req ''after'' cur]) @ rs)"
    by blast
  have "listOrbs_loop (length (p # ps) + fuel) client req i cur log reqs =
        listOrbs_loop (length ps + fuel) client req (Suc i) ?c ?l (reqs @ [Var req ''after'' cur])"
    by (simp add: loop_Suc p0 hp)
  also note rs(2)
  finally show ?case
    using rs(1)
    by (intro exI [of _ "Var req ''after'' cur # rs"]) simp
qed

text \<open>The same for \<open>listOrbs\<close>, from its first round-trip.\<close>

lemma listOrbs_after_pages:
  assumes "\<forall>k<length ps. \<forall>r. client k r = Inr (ps ! k)"
    and "\<forall>k<length ps. HasNextPage (PageInfo (Orbs (ps ! k)))"
  shows "\<exists>rs. length rs = length ps \<and>
     listOrbs (length ps + fuel) client =
     listOrbs_loop fuel client (NewRequest ListOrbs_query) (length ps)
       (if concat (map (\<lambda>p. Edges (Orbs p)) ps) = [] then ''''
        else Cursor (last (concat (map (\<lambda>p. Edges (Orbs p)) ps))))
       (map (\<lambda>e. Infof_Orb (Name (Node e))) (concat (map (\<lambda>p. Edges (Orbs p)) ps)))
       rs"
proof -
  have ans: "\<forall>k<length ps. \<forall>r. client (0 + k) r = Inr (ps ! k)"
    using assms(1) by simp
  from loop_pages [OF ans assms(2), of fuel "NewRequest ListOrbs_query" "''''" "[]" "[]"]
  obtain rs where "length rs = length ps"
    and "listOrbs_loop (length ps + fuel) client (NewRequest ListOrbs_query) 0 '''' [] [] =
     listOrbs_loop fuel client (NewRequest ListOrbs_query) (0 + length ps)
       (if concat (map (\<lambda>p. Edges (Orbs p)) ps) = [] then ''''
        else Cursor (last (concat (map (\<lambda>p. Edges (Orbs p)) ps))))
       ([] @ map (\<lambda>e. Infof_Orb (Name (Node e))) (concat (map (\<lambda>p. Edges (Orbs p)) ps)))
       ([] @ rs)"
    by blast
  then show ?thesis
    unfolding listOrbs_def by (intro exI [of _ rs] conjI) simp_all
qed

section \<open>The claims about \<open>orb list\<close>\<close>

text \<open>
  Claim C1 (pagination). The client answers round-trip \<open>k\<close> with page \<open>k\<close> of a
  sequence of \<open>N\<close> pages, and page \<open>k\<close> announces a next page exactly when
  \<open>k < N - 1\<close>. Then \<open>listOrbs\<close> logs the names of all entries, page after page in
  the order received, makes exactly \<open>N\<close> round-trips and returns \<open>nil\<close>, as soon as it
  is given fuel for \<open>N\<close> round-trips. The sequence has a page for the first round-trip,
  which \<open>listOrbs\<close> always makes: \<open>N \<ge> 1\<close>.
\<close>

theorem listOrbs_pages:
  assumes "ps \<noteq> []"
    and "\<forall>k<length ps. \<forall>req. client k req = Inr (ps ! k)"
    and "\<forall>k<length ps. HasNextPage (PageInfo (Orbs (ps ! k))) = (k < length ps - 1)"
    and "length ps \<le> fuel"
  shows "logged (listOrbs fuel client) =
           map (\<lambda>e. Infof_Orb (Name (Node e))) (concat (map (\<lambda>p. Edges (Orbs p)) ps))
       \<and> length (sent (listOrbs fuel client)) = length ps
       \<and> outcome (listOrbs fuel client) = Returned None"
proof -
  from assms(1) obtain qs p where ps: "ps = qs @ [p]"
    by (cases ps rule: rev_cases) auto
  define f where "f = fuel - length ps"
  have fuel: "fuel = length qs + Suc f"
    using assms(4) by (simp add: f_def ps)
  have ans: "\<forall>k<length qs. \<forall>r. client k r = Inr (qs ! k)"
    using assms(2) by (simp add: ps nth_append)
  have cont: "\<forall>k<length qs. HasNextPage (PageInfo (Orbs (qs ! k)))"
    using assms(3) by (simp add: ps nth_append less_Suc_eq)
  have final: "client (length qs) r = Inr p" for r
    using assms(2) by (simp add: ps nth_append)
  have stop: "\<not> HasNextPage (PageInfo (Orbs p))"
    using assms(3) by (simp add: ps nth_append less_Suc_eq)
  from listOrbs_after_pages [OF ans cont, of "Suc f"]
  obtain rs where rs: "length rs = length qs"
    and run: "listOrbs fuel client =
      listOrbs_loop (Suc f) client (NewRequest ListOrbs_query) (length qs)
       (if concat (map (\<lambda>p. Edges (Orbs p)) qs) = [] then ''''
        else Cursor (last (concat (map (\<lambda>p. Edges (Orbs p)) qs))))
       (map (\<lambda>e. Infof_Orb (Name (Node e))) (concat (map (\<lambda>p. Edges (Orbs p)) qs))) rs"
    unfolding fuel by blast
  show ?thesis
    unfolding run by (simp add: loop_Suc final stop rs ps)
qed

theorem listOrbs_pages_witness:
  "logged (listOrbs 5 (scripted [Inr (page [(''c1'', ''a''), (''c2'', ''b'')] True),
                                 Inr (page [(''c3'', ''c'')] False)])) =
     [''Orb: a\<newline>'', ''Orb: b\<newline>'', ''Orb: c\<newline>'']
   \<and> length (sent (listOrbs 5 (scripted [Inr (page [(''c1'', ''a''), (''c2'', ''b'')] True),
                                         Inr (page [(''c3'', ''c'')] False)]))) = 2
   \<and> outcome (listOrbs 5 (scripted [Inr (page [(''c1'', ''a''), (''c2'', ''b'')] True),
                                    Inr (page [(''c3'', ''c'')] False)])) = Returned None"
proof -
  let ?ps = "[page [(''c1'', ''a''), (''c2'', ''b'')] True, page [(''c3'', ''c'')] False]"
  let ?client = "scripted (map Inr ?ps)"
  have h1: "?ps \<noteq> []" by simp
  have h2: "\<forall>k<length ?ps. \<forall>req. ?client k req = Inr (?ps ! k)"
    by (simp add: scripted_def less_Suc_eq)
  have h3: "\<forall>k<length ?ps. HasNextPage (PageInfo (Orbs (?ps ! k))) = (k < length ?ps - 1)"
    by (auto simp add: page_def less_Suc_eq)
  have h4: "length ?ps \<le> 5" by simp
  from listOrbs_pages [OF h1 h2 h3 h4]
  show ?thesis by (simp add: page_def Infof_Orb_def)
qed

section \<open>More about the loop\<close>

text \<open>The requests already sent are only ever added to.\<close>

lemma sent_split:
  "sent (listOrbs_loop fuel client req i cur log reqs) =
   reqs @ sent (listOrbs_loop fuel client req i cur [] [])"
proof (induction fuel arbitrary: i cur log reqs)
  case 0
  then show ?case by (simp add: loop_0)
next
  case (Suc fuel)
  show ?case
  proof (cases "client i (Var req ''after'' cur)")
    case (Inl err)
    then show ?thesis by (simp add: loop_Suc)
  next
    case (Inr result)
    show ?thesis
    proof (cases "HasNextPage (PageInfo (Orbs result))")
      case False
      with Inr show ?thesis by (simp add: loop_Suc)
    next
      case True
      let ?c = "if Edges (Orbs result) = [] then cur else Cursor (last (Edges (Orbs result)))"
      have ih: "sent (listOrbs_loop fuel client req (Suc i) ?c l r) =
            r @ sent (listOrbs_loop fuel client req (Suc i) ?c [] [])" for l r
        by (rule Suc.IH)
      show ?thesis
        using Inr True
        by (simp add: loop_Suc ih [of _ "reqs @ _"] ih [of _ "[_]"])
    qed
  qed
qed

lemma sent_first:
  "\<exists>tail. sent (listOrbs_loop (Suc fuel) client req i cur log reqs) =
          reqs @ Var req ''after'' cur # tail"
proof (cases "client i (Var req ''after'' cur)")
  case (Inl err)
  then show ?thesis by (simp add: loop_Suc)
next
  case (Inr result)
  then show ?thesis
    by (cases "HasNextPage (PageInfo (Orbs result))")
       (simp_all add: loop_Suc sent_split [of _ _ _ _ _ _ "_ @ [_]"])
qed

lemma sent_query:
  "\<forall>r\<in>set reqs. query r = query req \<Longrightarrow>
   \<forall>r\<in>set (sent (listOrbs_loop fuel client req i cur log reqs)). query r = query req"
proof (induction fuel arbitrary: i cur log reqs)
  case 0
  then show ?case by (simp add: loop_0)
next
  case (Suc fuel)
  have "\<forall>r\<in>set (reqs @ [Var req ''after'' cur]). query r = query req"
    using Suc.prems by (simp add: query_Var)
  from Suc.IH [OF this] Suc.prems show ?case
    by (simp add: loop_Suc query_Var split: sum.split)
qed

lemma forwarding_loop:
  "(sent (listOrbs_loop fuel client req i cur [] []) \<noteq> [] \<longrightarrow>
      sent (listOrbs_loop fuel client req i cur [] []) ! 0 = Var req ''after'' cur) \<and>
   (\<forall>j. Suc j < length (sent (listOrbs_loop fuel client req i cur [] [])) \<longrightarrow>
      (\<exists>p c. client (i + j) (sent (listOrbs_loop fuel client req i cur [] []) ! j) = Inr p \<and>
         sent (listOrbs_loop fuel client req i cur [] []) ! j = Var req ''after'' c \<and>
         sent (listOrbs_loop fuel client req i cur [] []) ! Suc j =
           Var req ''after'' (if Edges (Orbs p) = [] then c else Cursor (last (Edges (Orbs p))))))"
proof (induction fuel arbitrary: i cur)
  case 0
  then show ?case by (simp add: loop_0)
next
  case (Suc fuel)
  show ?case
  proof (cases "client i (Var req ''after'' cur)")
    case (Inl err)
    then show ?thesis by (simp add: loop_Suc)
  next
    case (Inr result)
    show ?thesis
    proof (cases "HasNextPage (PageInfo (Orbs result))")
      case False
      with Inr show ?thesis by (simp add: loop_Suc)
    next
      case True
      let ?c = "if Edges (Orbs result) = [] then cur else Cursor (last (Edges (Orbs result)))"
      let ?T = "sent (listOrbs_loop fuel client req (Suc i) ?c [] [])"
      have S: "sent (listOrbs_loop (Suc fuel) client req i cur [] []) = Var req ''after'' cur # ?T"
        using Inr True
        by (simp add: loop_Suc sent_split [of _ _ _ _ _ _ "[_]"])
      have ih1: "?T \<noteq> [] \<longrightarrow> ?T ! 0 = Var req ''after'' ?c"
        and ih2: "\<forall>j. Suc j < length ?T \<longrightarrow>
          (\<exists>p c. client (Suc i + j) (?T ! j) = Inr p \<and> ?T ! j = Var req ''after'' c \<and>
             ?T ! Suc j =
               Var req ''after'' (if Edges (Orbs p) = [] then c else Cursor (last (Edges (Orbs p)))))"
        using Suc.IH [of "Suc i" ?c] by blast+
      have "\<exists>p c. client (i + j) ((Var req ''after'' cur # ?T) ! j) = Inr p \<and>
              (Var req ''after'' cur # ?T) ! j = Var req ''after'' c \<and>
              (Var req ''after'' cur # ?T) ! Suc j =
                Var req ''after'' (if Edges (Orbs p) = [] then c else Cursor (last (Edges (Orbs p))))"
        if j: "Suc j < length (Var req ''after'' cur # ?T)" for j
      proof (cases j)
        case 0
        with j have "?T \<noteq> []" by auto
        with ih1 have "?T ! 0 = Var req ''after'' ?c" by blast
        with 0 Inr show ?thesis by auto
      next
        case (Suc j')
        with j have "Suc j' < length ?T" by simp
        with ih2 Suc show ?thesis by simp
      qed
      then show ?thesis unfolding S by simp
    qed
  qed
qed

text \<open>
  The cursor held after some pages is the last cursor of the most recent page that had
  entries, and the starting cursor when none had.
\<close>

lemma held_cursor:
  "(if concat (map (\<lambda>p. Edges (Orbs p)) qs) = [] then cur
    else Cursor (last (concat (map (\<lambda>p. Edges (Orbs p)) qs)))) =
   (if filter (\<lambda>p. Edges (Orbs p) \<noteq> []) qs = [] then cur
    else Cursor (last (Edges (Orbs (last (filter (\<lambda>p. Edges (Orbs p) \<noteq> []) qs))))))"
proof (induction qs rule: rev_induct)
  case Nil
  then show ?case by simp
next
  case (snoc q qs)
  show ?case
  proof (cases "Edges (Orbs q) = []")
    case True
    then have "concat (map (\<lambda>p. Edges (Orbs p)) (qs @ [q])) = concat (map (\<lambda>p. Edges (Orbs p)) qs)"
      and "filter (\<lambda>p. Edges (Orbs p) \<noteq> []) (qs @ [q]) = filter (\<lambda>p. Edges (Orbs p) \<noteq> []) qs"
      by simp_all
    then show ?thesis using snoc.IH by (simp only:)
  next
    case False
    then show ?thesis by simp
  qed
qed

lemma sublist_orbs_first_20: "sublist ''orbs(first: 20, after: $after)'' ListOrbs_query"
proof -
  have "ListOrbs_query =
      (''\<newline>'' @ ''query ListOrbs ($after: String!) {\<newline>'' @ ''  '') @
      ''orbs(first: 20, after: $after)'' @
      ('' {\<newline>'' @
       tab @ ''totalCount,\<newline>'' @
       ''    edges {\<newline>'' @
       ''      cursor,\<newline>'' @
       ''      node {\<newline>'' @
       ''        name\<newline>'' @
       ''      }\<newline>'' @
       ''    }\<newline>'' @
       ''    pageInfo {\<newline>'' @
       ''      hasNextPage\<newline>'' @
       ''    }\<newline>'' @
       ''  }\<newline>'' @
       ''}\<newline>'' @
       tab)"
    by (simp add: ListOrbs_query_def)
  then show ?thesis
    unfolding sublist_def by blast
qed

lemma processErrors_neq_Wrap: "Wrap err msg \<noteq> processErrors response"
  by (simp add: processErrors_def)

text \<open>
  Claim C2 (cursor forwarding), as the code has it. In every run, whatever the client
  answers and however far the run has got: the first request carries \<open>after = ""\<close>,
  and whenever a round-trip \<open>i + 1\<close> follows round-trip \<open>i\<close>, round-trip \<open>i\<close> was
  answered with a page, and the \<open>after\<close> of round-trip \<open>i + 1\<close> is the cursor of the last
  entry of that page if the page has entries, and the \<open>after\<close> of round-trip \<open>i\<close>
  itself if it has none.
\<close>

theorem cursor_forwarding:
  "(sent (listOrbs fuel client) \<noteq> [] \<longrightarrow>
      vars (sent (listOrbs fuel client) ! 0) ''after'' = Some '''') \<and>
   (\<forall>i. Suc i < length (sent (listOrbs fuel client)) \<longrightarrow>
      (\<exists>p c. client i (sent (listOrbs fuel client) ! i) = Inr p \<and>
         vars (sent (listOrbs fuel client) ! i) ''after'' = Some c \<and>
         vars (sent (listOrbs fuel client) ! Suc i) ''after'' =
           Some (if Edges (Orbs p) = [] then c else Cursor (last (Edges (Orbs p))))))"
proof -
  let ?S = "sent (listOrbs fuel client)"
  let ?req = "NewRequest ListOrbs_query"
  have S: "?S = sent (listOrbs_loop fuel client ?req 0 '''' [] [])"
    by (simp add: listOrbs_def)
  have first: "?S \<noteq> [] \<longrightarrow> ?S ! 0 = Var ?req ''after'' ''''"
    and rest: "\<forall>j. Suc j < length ?S \<longrightarrow>
      (\<exists>p c. client (0 + j) (?S ! j) = Inr p \<and> ?S ! j = Var ?req ''after'' c \<and>
         ?S ! Suc j =
           Var ?req ''after'' (if Edges (Orbs p) = [] then c else Cursor (last (Edges (Orbs p)))))"
    unfolding S using forwarding_loop [of fuel client ?req 0 "''''"] by blast+
  have "\<exists>p c. client i (?S ! i) = Inr p \<and> vars (?S ! i) ''after'' = Some c \<and>
          vars (?S ! Suc i) ''after'' =
            Some (if Edges (Orbs p) = [] then c else Cursor (last (Edges (Orbs p))))"
    if "Suc i < length ?S" for i
  proof -
    from rest that obtain p c where
      "client i (?S ! i) = Inr p" "?S ! i = Var ?req ''after'' c"
      "?S ! Suc i =
         Var ?req ''after'' (if Edges (Orbs p) = [] then c else Cursor (last (Edges (Orbs p))))"
      by auto
    then show ?thesis by (metis vars_Var)
  qed
  moreover have "?S \<noteq> [] \<longrightarrow> vars (?S ! 0) ''after'' = Some ''''"
    using first by (simp add: vars_Var)
  ultimately show ?thesis by blast
qed

theorem cursor_forwarding_witness:
  "sent (listOrbs 3 (scripted [Inr (page [(''c1'', ''a''), (''c2'', ''b'')] True),
                               Inr (page [] True),
                               Inr (page [(''c3'', ''c'')] False)])) \<noteq> []
   \<and> Suc 0 < length (sent (listOrbs 3 (scripted [Inr (page [(''c1'', ''a''), (''c2'', ''b'')] True),
                               Inr (page [] True),
                               Inr (page [(''c3'', ''c'')] False)])))
   \<and> vars (sent (listOrbs 3 (scripted [Inr (page [(''c1'', ''a''), (''c2'', ''b'')] True),
                               Inr (page [] True),
                               Inr (page [(''c3'', ''c'')] False)])) ! 0) ''after'' = Some ''''
   \<and> vars (sent (listOrbs 3 (scripted [Inr (page [(''c1'', ''a''), (''c2'', ''b'')] True),
                               Inr (page [] True),
                               Inr (page [(''c3'', ''c'')] False)])) ! Suc 0) ''after'' = Some ''c2''"
proof -
  let ?C = "scripted [Inr (page [(''c1'', ''a''), (''c2'', ''b'')] True),
                      Inr (page [] True),
                      Inr (page [(''c3'', ''c'')] False)]"
  let ?S = "sent (listOrbs 3 ?C)"
  have len: "length ?S = 3"
    by (simp add: listOrbs_def numeral_3_eq_3 loop_Suc loop_0 scripted_def page_def)
  then have ne: "?S \<noteq> []" and lt: "Suc 0 < length ?S" by auto
  from cursor_forwarding [of 3 ?C] ne
  have first: "vars (?S ! 0) ''after'' = Some ''''" by blast
  from cursor_forwarding [of 3 ?C] lt
  obtain p c where "?C 0 (?S ! 0) = Inr p" "vars (?S ! 0) ''after'' = Some c"
    "vars (?S ! Suc 0) ''after'' =
       Some (if Edges (Orbs p) = [] then c else Cursor (last (Edges (Orbs p))))"
    by blast
  then have "vars (?S ! Suc 0) ''after'' = Some ''c2''"
    by (auto simp add: scripted_def page_def)
  with ne lt first show ?thesis by blast
qed

text \<open>
  The claim as it is worded ("equals the cursor of the last entry yielded during
  round-trip \<open>i\<close>") fails on a page without entries that announces a next page: the
  second round-trip is made, and its \<open>after\<close> is the cursor of no entry of the first.
\<close>

theorem cursor_forwarding_counterexample:
  "length (sent (listOrbs 2 (scripted [Inr (page [] True), Inr (page [(''c1'', ''a'')] False)]))) = 2
   \<and> scripted [Inr (page [] True), Inr (page [(''c1'', ''a'')] False)] 0
        (sent (listOrbs 2 (scripted [Inr (page [] True), Inr (page [(''c1'', ''a'')] False)])) ! 0)
      = Inr (page [] True)
   \<and> \<not> (\<exists>e. e \<in> set (Edges (Orbs (page [] True))) \<and>
        vars (sent (listOrbs 2 (scripted [Inr (page [] True), Inr (page [(''c1'', ''a'')] False)])) ! 1)
          ''after'' = Some (Cursor e))"
  by (simp add: listOrbs_def numeral_2_eq_2 loop_Suc loop_0 scripted_def page_def)

text \<open>
  Claim C3 (empty page). After some pages \<open>qs\<close> that each announce a next page, a
  round-trip is answered with a page \<open>p\<close> that has no entries and announces a next page.
  Then \<open>listOrbs\<close> has not returned after that round-trip, and with fuel for one more
  it sends a further request, whose \<open>after\<close> is the last cursor of the most recent page
  of \<open>qs\<close> that had entries, or the empty string if none had.
\<close>

theorem empty_page_continues:
  assumes "\<forall>k<length qs. \<forall>req. client k req = Inr (qs ! k)"
    and "\<forall>k<length qs. HasNextPage (PageInfo (Orbs (qs ! k)))"
    and "\<forall>req. client (length qs) req = Inr p"
    and "Edges (Orbs p) = []"
    and "HasNextPage (PageInfo (Orbs p))"
  shows "outcome (listOrbs (Suc (length qs)) client) = Running
       \<and> (Suc (length qs) < fuel \<longrightarrow>
            Suc (length qs) < length (sent (listOrbs fuel client))
          \<and> vars (sent (listOrbs fuel client) ! Suc (length qs)) ''after'' =
              Some (if filter (\<lambda>q. Edges (Orbs q) \<noteq> []) qs = [] then ''''
                    else Cursor (last (Edges (Orbs
                           (last (filter (\<lambda>q. Edges (Orbs q) \<noteq> []) qs)))))))"
proof -
  let ?ps = "qs @ [p]"
  let ?cur = "if filter (\<lambda>q. Edges (Orbs q) \<noteq> []) qs = [] then ''''
              else Cursor (last (Edges (Orbs (last (filter (\<lambda>q. Edges (Orbs q) \<noteq> []) qs)))))"
  have ans: "\<forall>k<length ?ps. \<forall>r. client k r = Inr (?ps ! k)"
    using assms(1,3) by (simp add: nth_append less_Suc_eq)
  have cont: "\<forall>k<length ?ps. HasNextPage (PageInfo (Orbs (?ps ! k)))"
    using assms(2,5) by (simp add: nth_append less_Suc_eq)
  have cur: "(if concat (map (\<lambda>p. Edges (Orbs p)) ?ps) = [] then ''''
              else Cursor (last (concat (map (\<lambda>p. Edges (Orbs p)) ?ps)))) = ?cur"
  proof -
    have "concat (map (\<lambda>p. Edges (Orbs p)) ?ps) = concat (map (\<lambda>p. Edges (Orbs p)) qs)"
      using assms(4) by simp
    then show ?thesis by (simp only: held_cursor)
  qed
  have run: "\<exists>rs log. length rs = Suc (length qs) \<and>
      listOrbs (Suc (length qs) + f) client =
      listOrbs_loop f client (NewRequest ListOrbs_query) (Suc (length qs)) ?cur log rs" for f
  proof -
    from listOrbs_after_pages [OF ans cont, of f]
    obtain rs where "length rs = length ?ps"
      and "listOrbs (length ?ps + f) client =
        listOrbs_loop f client (NewRequest ListOrbs_query) (length ?ps) ?cur
          (map (\<lambda>e. Infof_Orb (Name (Node e))) (concat (map (\<lambda>p. Edges (Orbs p)) ?ps))) rs"
      unfolding cur by blast
    then show ?thesis
      by (intro exI [of _ rs] exI conjI) simp_all
  qed
  have "outcome (listOrbs (Suc (length qs)) client) = Running"
    using run [of 0] by (auto simp add: loop_0)
  moreover have "Suc (length qs) < length (sent (listOrbs fuel client))
      \<and> vars (sent (listOrbs fuel client) ! Suc (length qs)) ''after'' = Some ?cur"
    if "Suc (length qs) < fuel"
  proof -
    define f where "f = fuel - Suc (Suc (length qs))"
    have fuel: "fuel = Suc (length qs) + Suc f"
      using that by (simp add: f_def)
    from run [of "Suc f"] obtain rs log where rs: "length rs = Suc (length qs)"
      and eq: "listOrbs fuel client =
        listOrbs_loop (Suc f) client (NewRequest ListOrbs_query) (Suc (length qs)) ?cur log rs"
      unfolding fuel by blast
    from sent_first [of f client "NewRequest ListOrbs_query" "Suc (length qs)" ?cur log rs]
    obtain tail where "sent (listOrbs fuel client) =
        rs @ Var (NewRequest ListOrbs_query) ''after'' ?cur # tail"
      unfolding eq by blast
    then show ?thesis
      using rs by (simp add: nth_append vars_Var)
  qed
  ultimately show ?thesis by blast
qed

theorem empty_page_continues_witness:
  "outcome (listOrbs 2 (scripted [Inr (page [(''c1'', ''a''), (''c2'', ''b'')] True),
                                  Inr (page [] True),
                                  Inr (page [(''c3'', ''c'')] False)])) = Running
   \<and> 2 < length (sent (listOrbs 3 (scripted [Inr (page [(''c1'', ''a''), (''c2'', ''b'')] True),
                                  Inr (page [] True),
                                  Inr (page [(''c3'', ''c'')] False)])))
   \<and> vars (sent (listOrbs 3 (scripted [Inr (page [(''c1'', ''a''), (''c2'', ''b'')] True),
                                  Inr (page [] True),
                                  Inr (page [(''c3'', ''c'')] False)])) ! 2) ''after'' = Some ''c2''"
proof -
  let ?qs = "[page [(''c1'', ''a''), (''c2'', ''b'')] True]"
  let ?p = "page [] True"
  let ?C = "scripted [Inr (page [(''c1'', ''a''), (''c2'', ''b'')] True),
                      Inr (page [] True),
                      Inr (page [(''c3'', ''c'')] False)]"
  have h1: "\<forall>k<length ?qs. \<forall>req. ?C k req = Inr (?qs ! k)"
    by (simp add: scripted_def)
  have h2: "\<forall>k<length ?qs. HasNextPage (PageInfo (Orbs (?qs ! k)))"
    by (simp add: page_def)
  have h3: "\<forall>req. ?C (length ?qs) req = Inr ?p"
    by (simp add: scripted_def)
  have h4: "Edges (Orbs ?p) = []" by (simp add: page_def)
  have h5: "HasNextPage (PageInfo (Orbs ?p))" by (simp add: page_def)
  from empty_page_continues [OF h1 h2 h3 h4 h5, of 3]
  show ?thesis by (simp add: page_def numeral_2_eq_2 numeral_3_eq_3)
qed

text \<open>
  Claim C9 (transport failure). After some pages \<open>qs\<close> that each announce a next page
  (none, when the failure is on the first round-trip), the client returns an error. Then
  \<open>listOrbs\<close> has logged the entries of \<open>qs\<close> and nothing else, has made one more
  round-trip than there are pages, and returns the client's error wrapped with
  "GraphQL query failed", which is no error that \<open>processErrors\<close> builds.
\<close>

theorem listOrbs_transport_failure:
  assumes "\<forall>k<length qs. \<forall>req. client k req = Inr (qs ! k)"
    and "\<forall>k<length qs. HasNextPage (PageInfo (Orbs (qs ! k)))"
    and "\<forall>req. client (length qs) req = Inl err"
    and "length qs < fuel"
  shows "logged (listOrbs fuel client) =
           map (\<lambda>e. Infof_Orb (Name (Node e))) (concat (map (\<lambda>p. Edges (Orbs p)) qs))
       \<and> length (sent (listOrbs fuel client)) = Suc (length qs)
       \<and> outcome (listOrbs fuel client) = Returned (Some (Wrap err ''GraphQL query failed''))
       \<and> Error (Wrap err ''GraphQL query failed'') = ''GraphQL query failed: '' @ Error err
       \<and> (\<forall>response. Wrap err ''GraphQL query failed'' \<noteq> processErrors response)"
proof -
  define f where "f = fuel - Suc (length qs)"
  have fuel: "fuel = length qs + Suc f"
    using assms(4) by (simp add: f_def)
  from listOrbs_after_pages [OF assms(1,2), of "Suc f"]
  obtain rs where rs: "length rs = length qs"
    and run: "listOrbs fuel client =
      listOrbs_loop (Suc f) client (NewRequest ListOrbs_query) (length qs)
       (if concat (map (\<lambda>p. Edges (Orbs p)) qs) = [] then ''''
        else Cursor (last (concat (map (\<lambda>p. Edges (Orbs p)) qs))))
       (map (\<lambda>e. Infof_Orb (Name (Node e))) (concat (map (\<lambda>p. Edges (Orbs p)) qs))) rs"
    unfolding fuel by blast
  show ?thesis
    unfolding run
    by (simp add: loop_Suc assms(3) rs processErrors_neq_Wrap)
qed

theorem listOrbs_transport_failure_witness:
  "logged (listOrbs 1 (scripted [Inl (External ''connection refused'')])) = []
   \<and> length (sent (listOrbs 1 (scripted [Inl (External ''connection refused'')]))) = 1
   \<and> outcome (listOrbs 1 (scripted [Inl (External ''connection refused'')])) =
       Returned (Some (Wrap (External ''connection refused'') ''GraphQL query failed''))
   \<and> logged (listOrbs 4 (scripted [Inr (page [(''c1'', ''a'')] True),
                                   Inl (External ''connection reset'')])) = [''Orb: a\<newline>'']
   \<and> outcome (listOrbs 4 (scripted [Inr (page [(''c1'', ''a'')] True),
                                    Inl (External ''connection reset'')])) =
       Returned (Some (Wrap (External ''connection reset'') ''GraphQL query failed''))"
proof -
  let ?C = "scripted [Inl (External ''connection refused'')]"
  have a1: "\<forall>k<length []. \<forall>req. ?C k req = Inr ([] ! k)" by simp
  have a2: "\<forall>k<length ([] :: orbList list). HasNextPage (PageInfo (Orbs ([] ! k)))" by simp
  have a3: "\<forall>req. ?C (length ([] :: orbList list)) req = Inl (External ''connection refused'')"
    by (simp add: scripted_def)
  have a4: "length ([] :: orbList list) < 1" by simp
  let ?qs = "[page [(''c1'', ''a'')] True]"
  let ?D = "scripted [Inr (page [(''c1'', ''a'')] True), Inl (External ''connection reset'')]"
  have b1: "\<forall>k<length ?qs. \<forall>req. ?D k req = Inr (?qs ! k)"
    by (simp add: scripted_def)
  have b2: "\<forall>k<length ?qs. HasNextPage (PageInfo (Orbs (?qs ! k)))"
    by (simp add: page_def)
  have b3: "\<forall>req. ?D (length ?qs) req = Inl (External ''connection reset'')"
    by (simp add: scripted_def)
  have b4: "length ?qs < 4" by simp
  from listOrbs_transport_failure [OF a1 a2 a3 a4] listOrbs_transport_failure [OF b1 b2 b3 b4]
  show ?thesis by (simp add: page_def Infof_Orb_def)
qed

text \<open>
  One more unit of fuel is one more round-trip: it adds to the log at most the entries of
  one page.
\<close>

lemma loop_one_more:
  assumes "\<forall>i req p. client i req = Inr p \<longrightarrow> length (Edges (Orbs p)) \<le> bound"
  shows "\<exists>ys. logged (listOrbs_loop (Suc n) client req i cur log reqs) =
              logged (listOrbs_loop n client req i cur log reqs) @ ys \<and> length ys \<le> bound"
proof (induction n arbitrary: i cur log reqs)
  case 0
  show ?case
  proof (cases "client i (Var req ''after'' cur)")
    case (Inl err)
    then show ?thesis by (simp add: loop_Suc loop_0)
  next
    case (Inr result)
    with assms have "length (Edges (Orbs result)) \<le> bound" by blast
    with Inr show ?thesis by (simp add: loop_Suc loop_0)
  qed
next
  case (Suc n)
  show ?case
  proof (cases "client i (Var req ''after'' cur)")
    case (Inl err)
    then show ?thesis by (simp add: loop_Suc)
  next
    case (Inr result)
    show ?thesis
    proof (cases "HasNextPage (PageInfo (Orbs result))")
      case False
      with Inr show ?thesis by (simp add: loop_Suc)
    next
      case True
      with Inr Suc.IH show ?thesis by (simp add: loop_Suc)
    qed
  qed
qed

text \<open>
  Claim C10 (page size). Every request of every run carries the one \<open>ListOrbs\<close> query,
  whose selection is \<open>orbs(first: 20, after: $after)\<close>: the page size the server is asked
  for is 20. When the client answers with pages of at most 20 entries, as a server that
  keeps this limit does, no round-trip logs more than 20 resources: one more round-trip
  adds at most 20 lines to the log, whatever the run has done before.
\<close>

theorem listOrbs_page_size:
  "(\<forall>r\<in>set (sent (listOrbs fuel client)). query r = ListOrbs_query)
   \<and> sublist ''orbs(first: 20, after: $after)'' ListOrbs_query
   \<and> ((\<forall>i req p. client i req = Inr p \<longrightarrow> length (Edges (Orbs p)) \<le> 20) \<longrightarrow>
        (\<exists>ys. logged (listOrbs (Suc n) client) = logged (listOrbs n client) @ ys
              \<and> length ys \<le> 20))"
proof -
  let ?req = "NewRequest ListOrbs_query"
  have "\<forall>r\<in>set (sent (listOrbs_loop fuel client ?req 0 '''' [] [])). query r = query ?req"
    by (rule sent_query) simp
  then have q: "\<forall>r\<in>set (sent (listOrbs fuel client)). query r = ListOrbs_query"
    by (simp add: listOrbs_def NewRequest_def)
  have "\<exists>ys. logged (listOrbs (Suc n) client) = logged (listOrbs n client) @ ys \<and> length ys \<le> 20"
    if "\<forall>i req p. client i req = Inr p \<longrightarrow> length (Edges (Orbs p)) \<le> 20"
    unfolding listOrbs_def by (rule loop_one_more [OF that])
  with q sublist_orbs_first_20 show ?thesis by blast
qed

theorem listOrbs_page_size_witness:
  "map query (sent (listOrbs 2 (scripted [Inr (page [(''c1'', ''a'')] True),
                                        Inr (page [(''c2'', ''b''), (''c3'', ''c'')] False)]))) =
     [ListOrbs_query, ListOrbs_query]
   \<and> length (logged (listOrbs 2 (scripted [Inr (page [(''c1'', ''a'')] True),
                                   Inr (page [(''c2'', ''b''), (''c3'', ''c'')] False)]))) \<le>
     length (logged (listOrbs 1 (scripted [Inr (page [(''c1'', ''a'')] True),
                                   Inr (page [(''c2'', ''b''), (''c3'', ''c'')] False)]))) + 20"
proof -
  let ?C = "scripted [Inr (page [(''c1'', ''a'')] True),
                      Inr (page [(''c2'', ''b''), (''c3'', ''c'')] False)]"
  have h: "\<forall>i req p. ?C i req = Inr p \<longrightarrow> length (Edges (Orbs p)) \<le> 20"
    by (auto simp add: scripted_def page_def less_Suc_eq split: if_splits)
  have len: "length (sent (listOrbs 2 ?C)) = 2"
    by (simp add: listOrbs_def numeral_2_eq_2 loop_Suc scripted_def page_def)
  have all: "map query rs = [ListOrbs_query, ListOrbs_query]"
    if "length rs = 2" "\<forall>r\<in>set rs. query r = ListOrbs_query" for rs :: "request list"
    using that by (cases rs; cases "tl rs") auto
  from listOrbs_page_size [of 2 ?C 1] h
  obtain ys where q: "\<forall>r\<in>set (sent (listOrbs 2 ?C)). query r = ListOrbs_query"
    and ys: "logged (listOrbs (Suc 1) ?C) = logged (listOrbs 1 ?C) @ ys" "length ys \<le> 20"
    by blast
  from ys have "length (logged (listOrbs 2 ?C)) \<le> length (logged (listOrbs 1 ?C)) + 20"
    by (simp add: Suc_1 [symmetric] del: Suc_1 One_nat_def)
  with all [OF len q] show ?thesis by blast
qed

section \<open>The claims about \<open>orb validate\<close> and \<open>orb expand\<close>\<close>

lemma writeErrors_eq:
  "writeErrors es buffer = buffer @ concat (map (\<lambda>e. ''-- '' @ Message e @ '',\<newline>'') es)"
  by (induction es arbitrary: buffer) simp_all

lemma sublist_Message:
  assumes "e \<in> set es"
  shows "sublist (Message e) (writeErrors es buffer)"
proof -
  from assms obtain xs ys where "es = xs @ e # ys"
    by (meson split_list)
  then have "writeErrors es buffer =
      (writeErrors xs buffer @ ''-- '') @ Message e @
      ('',\<newline>'' @ concat (map (\<lambda>e. ''-- '' @ Message e @ '',\<newline>'') ys))"
    by (simp add: writeErrors_eq)
  then show ?thesis
    unfolding sublist_def by blast
qed

lemma orbValidateQuery_response:
  "ReadFile orbPath = Inr orb \<Longrightarrow> queryAPI ValidateOrb_query [''orb'' \<mapsto> orb] = Inr response \<Longrightarrow>
   orbValidateQuery ReadFile queryAPI orbPath = Inr response"
  by (simp add: orbValidateQuery_def loadOrbYaml_def)

text \<open>
  Claim C4 (error aggregation format). The message of the error \<open>processErrors\<close> builds
  is a newline followed, for each error message of the response in order, by \<open>"-- "\<close>,
  the message, a comma and a newline. For the two messages \<open>a\<close> and \<open>b\<close> it is
  \<open>"\n-- a,\n-- b,\n"\<close>.
\<close>

theorem processErrors_format:
  "Error (processErrors response) =
     ''\<newline>'' @ concat (map (\<lambda>e. ''-- '' @ Message e @ '',\<newline>'') (Errors (OrbConfig response)))
   \<and> Error (processErrors \<lparr>OrbConfig = \<lparr>Valid = v, SourceYaml = src, OutputYaml = out,
        Errors = [\<lparr>Message = ''a''\<rparr>, \<lparr>Message = ''b''\<rparr>]\<rparr>\<rparr>) = ''\<newline>-- a,\<newline>-- b,\<newline>''"
  by (simp add: processErrors_def writeErrors_eq)

text \<open>
  Claim C5 (valid response). The file is read and the query is answered with a response
  whose \<open>Valid\<close> is true. Then \<open>validateOrb\<close> returns \<open>nil\<close> (having logged that the orb
  is valid), and \<open>expandOrb\<close> returns \<open>nil\<close> having logged the response's \<open>OutputYaml\<close>
  and nothing else. Nothing is asked of the response's \<open>Errors\<close>.
\<close>

theorem valid_response_succeeds:
  assumes "ReadFile orbPath = Inr orb"
    and "queryAPI ValidateOrb_query [''orb'' \<mapsto> orb] = Inr response"
    and "Valid (OrbConfig response)"
  shows "validateOrb ReadFile queryAPI orbPath = ([''Orb at '' @ orbPath @ '' is valid''], None)
       \<and> expandOrb ReadFile queryAPI orbPath = ([OutputYaml (OrbConfig response)], None)"
  using orbValidateQuery_response [of ReadFile orbPath orb queryAPI response] assms
  by (simp add: validateOrb_def expandOrb_def)

theorem valid_response_succeeds_witness:
  "validateOrb (\<lambda>path. Inr ''jobs: {}'')
     (\<lambda>q variables. Inr \<lparr>OrbConfig = \<lparr>Valid = True, SourceYaml = ''jobs: {}'', OutputYaml = ''x: 1'',
                                      Errors = [\<lparr>Message = ''stale''\<rparr>]\<rparr>\<rparr>) ''orb.yml''
     = ([''Orb at orb.yml is valid''], None)
   \<and> expandOrb (\<lambda>path. Inr ''jobs: {}'')
     (\<lambda>q variables. Inr \<lparr>OrbConfig = \<lparr>Valid = True, SourceYaml = ''jobs: {}'', OutputYaml = ''x: 1'',
                                      Errors = [\<lparr>Message = ''stale''\<rparr>]\<rparr>\<rparr>) ''orb.yml''
     = ([''x: 1''], None)"
proof -
  let ?response = "\<lparr>OrbConfig = \<lparr>Valid = True, SourceYaml = ''jobs: {}'', OutputYaml = ''x: 1'',
                                 Errors = [\<lparr>Message = ''stale''\<rparr>]\<rparr>\<rparr>"
  let ?ReadFile = "(\<lambda>path. Inr ''jobs: {}'') :: readFile"
  let ?queryAPI = "(\<lambda>q variables. Inr ?response) :: queryAPI"
  from valid_response_succeeds [of ?ReadFile "''orb.yml''" "''jobs: {}''" ?queryAPI ?response]
  show ?thesis by simp
qed

text \<open>
  Claim C6 (invalid response). The file is read and the query is answered with a response
  whose \<open>Valid\<close> is false. Then \<open>validateOrb\<close> and \<open>expandOrb\<close> give the same result:
  nothing is logged, and the error returned is the one \<open>processErrors\<close> builds with
  \<open>errors.New\<close>, whose message contains every error message of the response.
\<close>

theorem invalid_response_fails:
  assumes "ReadFile orbPath = Inr orb"
    and "queryAPI ValidateOrb_query [''orb'' \<mapsto> orb] = Inr response"
    and "\<not> Valid (OrbConfig response)"
  shows "validateOrb ReadFile queryAPI orbPath = ([], Some (processErrors response))
       \<and> expandOrb ReadFile queryAPI orbPath = validateOrb ReadFile queryAPI orbPath
       \<and> (\<exists>msg. processErrors response = New msg)
       \<and> (\<forall>e\<in>set (Errors (OrbConfig response)).
            sublist (Message e) (Error (processErrors response)))"
  using orbValidateQuery_response [of ReadFile orbPath orb queryAPI response] assms
  by (simp add: validateOrb_def expandOrb_def processErrors_def sublist_Message)

theorem invalid_response_fails_witness:
  "validateOrb (\<lambda>path. Inr ''jobs: {}'')
     (\<lambda>q variables. Inr \<lparr>OrbConfig = \<lparr>Valid = False, SourceYaml = ''jobs: {}'', OutputYaml = [],
                                      Errors = [\<lparr>Message = ''bad field''\<rparr>]\<rparr>\<rparr>) ''orb.yml''
     = ([], Some (New ''\<newline>-- bad field,\<newline>''))
   \<and> expandOrb (\<lambda>path. Inr ''jobs: {}'')
     (\<lambda>q variables. Inr \<lparr>OrbConfig = \<lparr>Valid = False, SourceYaml = ''jobs: {}'', OutputYaml = [],
                                      Errors = [\<lparr>Message = ''bad field''\<rparr>]\<rparr>\<rparr>) ''orb.yml''
     = ([], Some (New ''\<newline>-- bad field,\<newline>''))
   \<and> sublist ''bad field'' ''\<newline>-- bad field,\<newline>''"
proof -
  let ?response = "\<lparr>OrbConfig = \<lparr>Valid = False, SourceYaml = ''jobs: {}'', OutputYaml = [],
                                 Errors = [\<lparr>Message = ''bad field''\<rparr>]\<rparr>\<rparr>"
  let ?ReadFile = "(\<lambda>path. Inr ''jobs: {}'') :: readFile"
  let ?queryAPI = "(\<lambda>q variables. Inr ?response) :: queryAPI"
  from invalid_response_fails [of ?ReadFile "''orb.yml''" "''jobs: {}''" ?queryAPI ?response]
  show ?thesis by (simp add: processErrors_def)
qed

text \<open>
  Claim C7 (invalid response without errors). When \<open>Valid\<close> is false and the response
  lists no errors, both commands still return an error; its message is the single
  leading newline.
\<close>

theorem invalid_without_errors_fails:
  assumes "ReadFile orbPath = Inr orb"
    and "queryAPI ValidateOrb_query [''orb'' \<mapsto> orb] = Inr response"
    and "\<not> Valid (OrbConfig response)"
    and "Errors (OrbConfig response) = []"
  shows "validateOrb ReadFile queryAPI orbPath = ([], Some (New ''\<newline>''))
       \<and> expandOrb ReadFile queryAPI orbPath = ([], Some (New ''\<newline>''))
       \<and> Error (New ''\<newline>'') = ''\<newline>''"
  using orbValidateQuery_response [of ReadFile orbPath orb queryAPI response] assms
  by (simp add: validateOrb_def expandOrb_def processErrors_def)

theorem invalid_without_errors_fails_witness:
  "validateOrb (\<lambda>path. Inr ''jobs: {}'')
     (\<lambda>q variables. Inr \<lparr>OrbConfig = \<lparr>Valid = False, SourceYaml = ''jobs: {}'', OutputYaml = [],
                                      Errors = []\<rparr>\<rparr>) ''orb.yml''
     = ([], Some (New ''\<newline>''))
   \<and> expandOrb (\<lambda>path. Inr ''jobs: {}'')
     (\<lambda>q variables. Inr \<lparr>OrbConfig = \<lparr>Valid = False, SourceYaml = ''jobs: {}'', OutputYaml = [],
                                      Errors = []\<rparr>\<rparr>) ''orb.yml''
     = ([], Some (New ''\<newline>''))"
proof -
  let ?response = "\<lparr>OrbConfig = \<lparr>Valid = False, SourceYaml = ''jobs: {}'', OutputYaml = [],
                                 Errors = []\<rparr>\<rparr>"
  let ?ReadFile = "(\<lambda>path. Inr ''jobs: {}'') :: readFile"
  let ?queryAPI = "(\<lambda>q variables. Inr ?response) :: queryAPI"
  from invalid_without_errors_fails [of ?ReadFile "''orb.yml''" "''jobs: {}''" ?queryAPI ?response]
  show ?thesis by simp
qed

text \<open>
  Claim C8 (failed validation request), as the code has it. The file is read and
  \<open>queryAPI\<close> fails. Then \<open>orbValidateQuery\<close> returns that error wrapped with the
  context "Unable to validate orb", both commands return it as it is and log nothing, and
  it differs from every error \<open>processErrors\<close> builds, in its kind (\<open>errors.Wrap\<close> against
  \<open>errors.New\<close>) and in its message.
\<close>

theorem transport_failure_is_wrapped:
  assumes "ReadFile orbPath = Inr orb"
    and "queryAPI ValidateOrb_query [''orb'' \<mapsto> orb] = Inl err"
  shows "orbValidateQuery ReadFile queryAPI orbPath = Inl (Wrap err ''Unable to validate orb'')
       \<and> Error (Wrap err ''Unable to validate orb'') = ''Unable to validate orb: '' @ Error err
       \<and> validateOrb ReadFile queryAPI orbPath = ([], Some (Wrap err ''Unable to validate orb''))
       \<and> expandOrb ReadFile queryAPI orbPath = ([], Some (Wrap err ''Unable to validate orb''))
       \<and> (\<forall>response. Wrap err ''Unable to validate orb'' \<noteq> processErrors response
            \<and> Error (Wrap err ''Unable to validate orb'') \<noteq> Error (processErrors response))"
  using assms
  by (simp add: orbValidateQuery_def loadOrbYaml_def validateOrb_def expandOrb_def
      processErrors_def writeErrors_eq)

theorem transport_failure_is_wrapped_witness:
  "orbValidateQuery (\<lambda>path. Inr ''jobs: {}'') (\<lambda>q variables. Inl (External ''connection refused''))
     ''orb.yml'' = Inl (Wrap (External ''connection refused'') ''Unable to validate orb'')
   \<and> Error (Wrap (External ''connection refused'') ''Unable to validate orb'') =
       ''Unable to validate orb: connection refused''"
proof -
  let ?ReadFile = "(\<lambda>path. Inr ''jobs: {}'') :: readFile"
  let ?queryAPI = "(\<lambda>q variables. Inl (External ''connection refused'')) :: queryAPI"
  from transport_failure_is_wrapped
    [of ?ReadFile "''orb.yml''" "''jobs: {}''" ?queryAPI "External ''connection refused''"]
  show ?thesis by simp
qed

text \<open>
  The context is not the text "unable to validate" of the claim: the error returned is
  not the cause wrapped with that text, and its message does not contain it.
\<close>

theorem transport_failure_is_wrapped_counterexample:
  "orbValidateQuery (\<lambda>path. Inr ''jobs: {}'') (\<lambda>q variables. Inl (External ''connection refused''))
     ''orb.yml'' \<noteq> Inl (Wrap (External ''connection refused'') ''unable to validate'')
   \<and> orbValidateQuery (\<lambda>path. Inr ''jobs: {}'') (\<lambda>q variables. Inl (External ''connection refused''))
     ''orb.yml'' = Inl (Wrap (External ''connection refused'') ''Unable to validate orb'')
   \<and> \<not> sublist ''unable to validate''
         (Error (Wrap (External ''connection refused'') ''Unable to validate orb''))"
  by (simp add: orbValidateQuery_def loadOrbYaml_def sublist_code)

end
